theory Spec2Isabelle
  imports Main "HOL-Library.Sublist" "HOL-Library.Product_Lexorder" "HOL-Library.Word"
begin

text \<open>
  A shallow embedding of the two query tools \<open>yaml-grep.py\<close> (recursive regex search
  with paths) and \<open>yaml-show.py\<close> (subtree extraction by pointer).

  Scope of the model. A document is a finite tree (no cyclic aliases). Strings are lists
  of code points below 256. A float is carried as the 64 bits of its IEEE double; the only
  thing either tool does with a float is to render it with \<open>json.dumps\<close>, and that
  rendering is a parameter \<open>float_repr\<close>. A compiled regular expression is a parameter
  as well: the two methods the tools call on it. \<open>int\<close> of a string refuses more than
  4300 digits (the interpreter's default limit), and \<open>py_int\<close> does so. The same limit on
  \<open>str\<close> and \<open>json.dumps\<close> of an integer is left out; it is met only by a document
  that holds an integer of more than 4300 digits, and never by a sequence index. The
  recursion limit is left out as well. Mapping keys are the scalar kinds the loaders
  produce for JSON and for plain YAML scalars.
\<close>

section \<open>Python string primitives used by the two tools\<close>

text \<open>
  Strings are lists of characters. \<open>str.replace(old, new)\<close> scans from the left and
  replaces non-overlapping occurrences of \<open>old\<close>; with an empty \<open>old\<close> it puts \<open>new\<close>
  before every character and at the end.
\<close>

function replace :: "string \<Rightarrow> string \<Rightarrow> string \<Rightarrow> string" where
  "replace old new s =
     (if old = [] then new @ concat (map (\<lambda>c. c # new) s)
      else if s = [] then []
      else if prefix old s then new @ replace old new (drop (length old) s)
      else hd s # replace old new (tl s))"
  by pat_completeness auto
termination
  by (relation "measure (\<lambda>(old, new, s). length s)") auto

declare replace.simps [simp del]

text \<open>\<open>s.split(sep)\<close> for a one-character separator: one more piece than separators.\<close>

fun split :: "char \<Rightarrow> string \<Rightarrow> string list" where
  "split sep [] = [[]]"
| "split sep (c # cs) =
     (if c = sep then [] # split sep cs
      else (c # hd (split sep cs)) # tl (split sep cs))"

text \<open>\<open>sep.join(parts)\<close>.\<close>

fun join :: "string \<Rightarrow> string list \<Rightarrow> string" where
  "join sep [] = []"
| "join sep [p] = p"
| "join sep (p # q # ps) = p @ sep @ join sep (q # ps)"

text \<open>\<open>s.rstrip("/")\<close>: drop the trailing run of the character.\<close>

definition rstrip :: "char \<Rightarrow> string \<Rightarrow> string" where
  "rstrip c s = rev (dropWhile (\<lambda>x. x = c) (rev s))"

section \<open>Pointer escaping (yaml-grep) and unescaping (yaml-show)\<close>

definition json_pointer_escape :: "string \<Rightarrow> string" where
  "json_pointer_escape token = replace ''/'' ''~1'' (replace ''~'' ''~0'' token)"

text \<open>What the two replacements of \<open>json_pointer_escape\<close> do to one character.\<close>

definition esc_char :: "char \<Rightarrow> string" where
  "esc_char c = (if c = CHR ''~'' then ''~0'' else if c = CHR ''/'' then ''~1'' else [c])"

definition unescape_token :: "string \<Rightarrow> string" where
  "unescape_token tok = replace ''~0'' ''~'' (replace ''~1'' ''/'' tok)"

section \<open>Documents\<close>

datatype scalar = PStr string | PInt int | PFloat "64 word" | PBool bool | PNone

text \<open>
  \<open>POther\<close> stands for a loaded value that is neither a container nor one of the scalar
  kinds the source's \<open>is_scalar\<close> accepts (a YAML timestamp, say); it carries its type
  name. The values \<open>is_scalar\<close> accepts are the ones built with \<open>Scalar\<close>.
  A \<open>dict\<close> is the list of its items in insertion order.
\<close>

datatype pyobj =
    Scalar scalar
  | PList "pyobj list"
  | PDict "(scalar \<times> pyobj) list"
  | POther string

fun is_container :: "pyobj \<Rightarrow> bool" where
  "is_container (PList xs) = True"
| "is_container (PDict kvs) = True"
| "is_container v = False"

subsection \<open>Decimal text of integers: \<open>str(int)\<close> and \<open>int(str)\<close>\<close>

definition digit_char :: "nat \<Rightarrow> char" where
  "digit_char d = ''0123456789'' ! d"

function str_nat :: "nat \<Rightarrow> string" where
  "str_nat n = (if n < 10 then [digit_char n] else str_nat (n div 10) @ [digit_char (n mod 10)])"
  by pat_completeness auto
termination
  by (relation "measure id") auto

declare str_nat.simps [simp del]

definition str_int :: "int \<Rightarrow> string" where
  "str_int i = (if i < 0 then CHR ''-'' # str_nat (nat (- i)) else str_nat (nat i))"

definition is_digit :: "char \<Rightarrow> bool" where
  "is_digit c = (c \<in> set ''0123456789'')"

definition digit_val :: "char \<Rightarrow> nat" where
  "digit_val c = of_char c - 48"

text \<open>The white space \<open>int\<close> strips: tab, LF, VT, FF, CR, space, NEL and NBSP.\<close>

definition is_space :: "char \<Rightarrow> bool" where
  "is_space c = (c \<in> {CHR 0x09, CHR 0x0A, CHR 0x0B, CHR 0x0C, CHR 0x0D, CHR 0x20, CHR 0x85, CHR 0xA0})"

definition strip :: "string \<Rightarrow> string" where
  "strip s = rev (dropWhile is_space (rev (dropWhile is_space s)))"

text \<open>
  Digits with single underscores between them; the flag says whether the previous
  character was a digit.
\<close>

fun valid_body :: "bool \<Rightarrow> string \<Rightarrow> bool" where
  "valid_body prev [] = prev"
| "valid_body prev (c # cs) =
     (if is_digit c then valid_body True cs
      else if c = CHR ''_'' \<and> prev then valid_body False cs
      else False)"

definition digits_value :: "string \<Rightarrow> nat" where
  "digits_value ds = foldl (\<lambda>a c. 10 * a + digit_val c) 0 ds"

text \<open>\<open>sys.get_int_max_str_digits()\<close>, as the interpreter starts.\<close>

definition max_str_digits :: nat where
  "max_str_digits = 4300"

text \<open>
  \<open>int(tok)\<close>: \<open>None\<close> is the \<open>ValueError\<close>, raised for a text that is no decimal
  literal and for one with more digits than the limit (underscores are not counted,
  leading zeros are).
\<close>

definition py_int :: "string \<Rightarrow> int option" where
  "py_int tok =
     (let t = strip tok;
          neg = (t \<noteq> [] \<and> hd t = CHR ''-'');
          body = (if t \<noteq> [] \<and> (hd t = CHR ''-'' \<or> hd t = CHR ''+'') then tl t else t)
      in if valid_body False body \<and> length (filter is_digit body) \<le> max_str_digits
         then Some (if neg then - int (digits_value (filter is_digit body))
                    else int (digits_value (filter is_digit body)))
         else None)"

section \<open>Path rendering (yaml-grep)\<close>

text \<open>
  A path token is a mapping key or a sequence index; an index is a \<open>PInt\<close>. The
  exceptions are the ones the path renderers raise on a key that is neither \<open>str\<close> nor
  \<open>int\<close>: \<open>token.replace\<close> on it is an \<open>AttributeError\<close>, \<open>re.fullmatch\<close> on it a
  \<open>TypeError\<close>. A \<open>bool\<close> is an \<open>int\<close> for \<open>isinstance\<close>.
\<close>

datatype py_exception = AttributeError | TypeError

fun str_index :: "scalar \<Rightarrow> string option" where
  "str_index (PInt i) = Some (str_int i)"
| "str_index (PBool b) = Some (if b then ''True'' else ''False'')"
| "str_index t = None"

fun pointer_part :: "scalar \<Rightarrow> py_exception + string" where
  "pointer_part (PStr t) = Inr (json_pointer_escape t)"
| "pointer_part t = (case str_index t of Some d \<Rightarrow> Inr d | None \<Rightarrow> Inl AttributeError)"

fun pointer_parts :: "scalar list \<Rightarrow> py_exception + string list" where
  "pointer_parts [] = Inr []"
| "pointer_parts (t # ts) =
     (case pointer_part t of
        Inl e \<Rightarrow> Inl e
      | Inr p \<Rightarrow> (case pointer_parts ts of Inl e \<Rightarrow> Inl e | Inr ps \<Rightarrow> Inr (p # ps)))"

definition to_path_pointer :: "scalar list \<Rightarrow> py_exception + string" where
  "to_path_pointer tokens =
     (case pointer_parts tokens of
        Inl e \<Rightarrow> Inl e
      | Inr parts \<Rightarrow> Inr (''/'' @ join ''/'' parts))"

text \<open>\<open>json.dumps\<close> of a string, with the default \<open>ensure_ascii\<close>.\<close>

definition hex_digit :: "nat \<Rightarrow> char" where
  "hex_digit d = ''0123456789abcdef'' ! d"

definition json_escape_char :: "char \<Rightarrow> string" where
  "json_escape_char c =
     (if c = CHR 0x5C then [CHR 0x5C, CHR 0x5C]
      else if c = CHR 0x22 then [CHR 0x5C, CHR 0x22]
      else if c = CHR 0x0A then [CHR 0x5C, CHR ''n'']
      else if c = CHR 0x0D then [CHR 0x5C, CHR ''r'']
      else if c = CHR 0x09 then [CHR 0x5C, CHR ''t'']
      else if c = CHR 0x08 then [CHR 0x5C, CHR ''b'']
      else if c = CHR 0x0C then [CHR 0x5C, CHR ''f'']
      else if (of_char c :: nat) < 32 \<or> 126 < (of_char c :: nat)
        then [CHR 0x5C, CHR ''u'', CHR ''0'', CHR ''0'',
              hex_digit ((of_char c :: nat) div 16), hex_digit ((of_char c :: nat) mod 16)]
      else [c])"

definition json_dumps_str :: "string \<Rightarrow> string" where
  "json_dumps_str t = [CHR 0x22] @ concat (map json_escape_char t) @ [CHR 0x22]"

text \<open>\<open>re.fullmatch(r"[A-Za-z_][A-Za-z0-9_]*", t)\<close>.\<close>

definition is_ident_start :: "char \<Rightarrow> bool" where
  "is_ident_start c =
     (c \<in> set ''ABCDEFGHIJKLMNOPQRSTUVWXYZabcdefghijklmnopqrstuvwxyz_'')"

definition is_identifier :: "string \<Rightarrow> bool" where
  "is_identifier t =
     (t \<noteq> [] \<and> is_ident_start (hd t) \<and> list_all (\<lambda>c. is_ident_start c \<or> is_digit c) (tl t))"

fun dot_part :: "scalar \<Rightarrow> py_exception + string" where
  "dot_part (PStr t) =
     Inr (if is_identifier t then ''.'' @ t else ''['' @ json_dumps_str t @ '']'')"
| "dot_part t = (case str_index t of Some d \<Rightarrow> Inr (''['' @ d @ '']'') | None \<Rightarrow> Inl TypeError)"

fun dot_loop :: "string \<Rightarrow> scalar list \<Rightarrow> py_exception + string" where
  "dot_loop out [] = Inr out"
| "dot_loop out (t # ts) =
     (case dot_part t of Inl e \<Rightarrow> Inl e | Inr p \<Rightarrow> dot_loop (out @ p) ts)"

definition to_path_dot :: "scalar list \<Rightarrow> py_exception + string" where
  "to_path_dot tokens = dot_loop ''root'' tokens"

section \<open>Match highlighting (yaml-grep)\<close>

text \<open>
  A compiled pattern, as far as the tools use it: whether \<open>rx.search(s)\<close> finds a match,
  and the \<open>(m.start(), m.end())\<close> of the matches \<open>rx.finditer(s)\<close> yields, in order.
\<close>

record pattern =
  rx_search :: "string \<Rightarrow> bool"
  rx_finditer :: "string \<Rightarrow> (nat \<times> nat) list"

definition ESC_ON :: string where
  "ESC_ON = CHR 0x1B # ''[1m''"

definition ESC_OFF :: string where
  "ESC_OFF = CHR 0x1B # ''[0m''"

text \<open>\<open>s[a:b]\<close> for offsets that are not negative.\<close>

definition substr :: "string \<Rightarrow> nat \<Rightarrow> nat \<Rightarrow> string" where
  "substr s a b = take (b - a) (drop a s)"

definition collect_ranges :: "string \<Rightarrow> pattern list \<Rightarrow> (nat \<times> nat) list" where
  "collect_ranges s regexes = concat (map (\<lambda>rx. rx_finditer rx s) regexes)"

text \<open>The merging loop over \<open>ranges[1:]\<close>, with \<open>cur_s\<close>, \<open>cur_e\<close> and \<open>merged\<close>.\<close>

fun merge_loop :: "nat \<Rightarrow> nat \<Rightarrow> (nat \<times> nat) list \<Rightarrow> (nat \<times> nat) list \<Rightarrow> (nat \<times> nat) list" where
  "merge_loop cur_s cur_e [] merged = merged @ [(cur_s, cur_e)]"
| "merge_loop cur_s cur_e ((s0, e0) # rest) merged =
     (if s0 \<le> cur_e then merge_loop cur_s (max cur_e e0) rest merged
      else merge_loop s0 e0 rest (merged @ [(cur_s, cur_e)]))"

definition merge_ranges :: "(nat \<times> nat) list \<Rightarrow> (nat \<times> nat) list" where
  "merge_ranges ranges =
     (let sorted = sort ranges
      in merge_loop (fst (hd sorted)) (snd (hd sorted)) (tl sorted) [])"

text \<open>The loop that builds the pieces of the output, with \<open>last\<close> (here \<open>last_e\<close>) and \<open>out\<close>.\<close>

fun build_loop :: "string \<Rightarrow> nat \<Rightarrow> (nat \<times> nat) list \<Rightarrow> string list \<Rightarrow> string list" where
  "build_loop s last_e [] out = out @ [drop last_e s]"
| "build_loop s last_e ((s0, e0) # rest) out =
     build_loop s e0 rest (out @ [substr s last_e s0, ESC_ON @ substr s s0 e0 @ ESC_OFF])"

definition colorize :: "string \<Rightarrow> pattern list \<Rightarrow> bool \<Rightarrow> string" where
  "colorize s regexes enabled =
     (if \<not> enabled then s
      else if collect_ranges s regexes = [] then s
      else concat (build_loop s 0 (merge_ranges (collect_ranges s regexes)) []))"

section \<open>Search (yaml-grep)\<close>

text \<open>\<open>stringify\<close>: a string as it is, any other scalar through \<open>json.dumps\<close>.\<close>

fun stringify :: "(64 word \<Rightarrow> string) \<Rightarrow> scalar \<Rightarrow> string" where
  "stringify float_repr (PStr x) = x"
| "stringify float_repr (PInt i) = str_int i"
| "stringify float_repr (PFloat f) = float_repr f"
| "stringify float_repr (PBool b) = (if b then ''true'' else ''false'')"
| "stringify float_repr PNone = ''null''"

text \<open>
  The arguments of \<open>search\<close> that every recursive call passes on unchanged, with the
  rendering of floats.
\<close>

record search_args =
  float_repr :: "64 word \<Rightarrow> string"
  regexes :: "pattern list"
  match_keys :: bool
  match_values :: bool
  path_fmt :: string
  color :: bool
  max_matches :: int

text \<open>\<open>max_matches and len(out) >= max_matches\<close>.\<close>

definition cap_reached :: "search_args \<Rightarrow> string list \<Rightarrow> bool" where
  "cap_reached a out = (max_matches a \<noteq> 0 \<and> int (length out) \<ge> max_matches a)"

definition render_path :: "string \<Rightarrow> scalar list \<Rightarrow> py_exception + string" where
  "render_path fmt tokens =
     (if fmt = ''pointer'' then to_path_pointer tokens else to_path_dot tokens)"

text \<open>
  The block the source repeats for a key, a mapping value and a sequence element: test
  the text against the patterns and, on a match, append one line. The flag in the result
  says whether a line was appended, which is when the source checks the cap.
\<close>

definition emit ::
  "search_args \<Rightarrow> scalar list \<Rightarrow> string \<Rightarrow> string \<Rightarrow> string list
   \<Rightarrow> py_exception + (string list \<times> bool)" where
  "emit a tokens kind text out =
     (if list_ex (\<lambda>rx. rx_search rx text) (regexes a) then
        (case render_path (path_fmt a) tokens of
           Inl e \<Rightarrow> Inl e
         | Inr path \<Rightarrow>
             Inr (out @ [path @ [CHR 0x09] @ kind @ [CHR 0x09]
                          @ colorize text (regexes a) (color a)], True))
      else Inr (out, False))"

text \<open>\<open>if match_keys: ...\<close> on a key.\<close>

definition emit_key ::
  "search_args \<Rightarrow> scalar list \<Rightarrow> scalar \<Rightarrow> string list \<Rightarrow> py_exception + (string list \<times> bool)" where
  "emit_key a tokens k out =
     (if match_keys a then emit a tokens ''(KEY)'' (stringify (float_repr a) k) out
      else Inr (out, False))"

text \<open>\<open>if match_values and is_scalar(v): ...\<close> on a child.\<close>

definition emit_value ::
  "search_args \<Rightarrow> scalar list \<Rightarrow> pyobj \<Rightarrow> string list \<Rightarrow> py_exception + (string list \<times> bool)" where
  "emit_value a tokens v out =
     (case v of
        Scalar x \<Rightarrow>
          if match_values a then emit a tokens ''(VAL)'' (stringify (float_repr a) x) out
          else Inr (out, False)
      | _ \<Rightarrow> Inr (out, False))"

text \<open>The branch for a document that is a single scalar.\<close>

definition search_root_scalar :: "search_args \<Rightarrow> scalar \<Rightarrow> string list \<Rightarrow> string list" where
  "search_root_scalar a x out =
     (if match_values a \<and> list_ex (\<lambda>rx. rx_search rx (stringify (float_repr a) x)) (regexes a)
      then out @ [(if path_fmt a = ''pointer'' then [] else ''root'') @ [CHR 0x09] @ ''(VAL)''
                   @ [CHR 0x09] @ colorize (stringify (float_repr a) x) (regexes a) (color a)]
      else out)"

text \<open>
  \<open>search\<close> appends to \<open>out\<close> in place; the model returns the list. The two loops are
  \<open>search_dict\<close> (over \<open>obj.items()\<close>) and \<open>search_list\<close> (over \<open>enumerate(obj)\<close>, with
  the running index). A \<open>return\<close> inside a loop ends the call that runs the loop, and
  nothing follows either loop, so it is the loop's result.
\<close>

fun search :: "search_args \<Rightarrow> pyobj \<Rightarrow> scalar list \<Rightarrow> string list \<Rightarrow> py_exception + string list"
and search_dict ::
  "search_args \<Rightarrow> (scalar \<times> pyobj) list \<Rightarrow> scalar list \<Rightarrow> string list \<Rightarrow> py_exception + string list"
and search_list ::
  "search_args \<Rightarrow> pyobj list \<Rightarrow> nat \<Rightarrow> scalar list \<Rightarrow> string list \<Rightarrow> py_exception + string list"
where
  "search a obj tokens out =
     (if cap_reached a out then Inr out
      else (case obj of
          PDict items \<Rightarrow> search_dict a items tokens out
        | PList elems \<Rightarrow> search_list a elems 0 tokens out
        | Scalar x \<Rightarrow> Inr (search_root_scalar a x out)
        | POther ty \<Rightarrow> Inr out))"
| "search_dict a [] tokens out = Inr out"
| "search_dict a ((k, v) # rest) tokens out =
     (case emit_key a (tokens @ [k]) k out of
        Inl e \<Rightarrow> Inl e
      | Inr (out1, hit1) \<Rightarrow>
          if hit1 \<and> cap_reached a out1 then Inr out1
          else (case emit_value a (tokens @ [k]) v out1 of
              Inl e \<Rightarrow> Inl e
            | Inr (out2, hit2) \<Rightarrow>
                if hit2 \<and> cap_reached a out2 then Inr out2
                else (case (if is_container v then search a v (tokens @ [k]) out2
                            else Inr out2) of
                    Inl e \<Rightarrow> Inl e
                  | Inr out3 \<Rightarrow> search_dict a rest tokens out3)))"
| "search_list a [] idx tokens out = Inr out"
| "search_list a (v # rest) idx tokens out =
     (case emit_value a (tokens @ [PInt (int idx)]) v out of
        Inl e \<Rightarrow> Inl e
      | Inr (out1, hit1) \<Rightarrow>
          if hit1 \<and> cap_reached a out1 then Inr out1
          else (case (if is_container v then search a v (tokens @ [PInt (int idx)]) out1
                      else Inr out1) of
              Inl e \<Rightarrow> Inl e
            | Inr out2 \<Rightarrow> search_list a rest (Suc idx) tokens out2))"

text \<open>The call \<open>main\<close> makes: from the root, with an empty \<open>out\<close>.\<close>

definition search_report :: "search_args \<Rightarrow> pyobj \<Rightarrow> py_exception + string list" where
  "search_report a data = search a data [] []"

section \<open>Pointer parsing and resolution (yaml-show)\<close>

text \<open>
  Every \<open>sys.exit\<close> of \<open>yaml-show.py\<close> is one constructor, carrying the values its
  message is formatted from: the pointer; \<open>path_so_far\<close> and the token; \<open>path_so_far\<close>,
  the index and the length; \<open>path_so_far\<close>, the token, \<open>keys[:10]\<close> and whether there
  are more than ten keys; \<open>path_so_far\<close> and \<open>type(cur).__name__\<close>.
\<close>

datatype exit_error =
    PathMustStartWithSlash string
  | NotAnIndex string string
  | IndexOutOfRange string int nat
  | KeyNotFound string string "scalar list" bool
  | CannotDescend string string

definition parse_pointer :: "string \<Rightarrow> exit_error + string list" where
  "parse_pointer ptr =
     (if ptr = [] \<or> ptr = ''/'' then Inr []
      else if \<not> prefix ''/'' ptr then Inl (PathMustStartWithSlash ptr)
      else Inr (map unescape_token (filter (\<lambda>p. p \<noteq> []) (split CHR ''/'' (drop 1 ptr)))))"

fun type_name :: "pyobj \<Rightarrow> string" where
  "type_name (Scalar (PStr x)) = ''str''"
| "type_name (Scalar (PInt i)) = ''int''"
| "type_name (Scalar (PFloat f)) = ''float''"
| "type_name (Scalar (PBool b)) = ''bool''"
| "type_name (Scalar PNone) = ''NoneType''"
| "type_name (PList xs) = ''list''"
| "type_name (PDict kvs) = ''dict''"
| "type_name (POther ty) = ty"

text \<open>\<open>"/" + "/".join(tokens[:depth-1])\<close>.\<close>

definition path_so_far :: "string list \<Rightarrow> nat \<Rightarrow> string" where
  "path_so_far tokens depth = ''/'' @ join ''/'' (take (depth - 1) tokens)"

text \<open>
  The loop of \<open>resolve\<close> over \<open>enumerate(tokens, 1)\<close>: the whole token list, the current
  node, the depth of the next token and the tokens still to come. A string token is a key
  of a \<open>dict\<close> only when the key is that string.
\<close>

fun resolve_loop :: "string list \<Rightarrow> pyobj \<Rightarrow> nat \<Rightarrow> string list \<Rightarrow> exit_error + pyobj" where
  "resolve_loop tokens cur depth [] = Inr cur"
| "resolve_loop tokens (PList xs) depth (tok # rest) =
     (case py_int tok of
        None \<Rightarrow> Inl (NotAnIndex (path_so_far tokens depth) tok)
      | Some idx \<Rightarrow>
          if idx < 0 \<or> idx \<ge> int (length xs)
          then Inl (IndexOutOfRange (path_so_far tokens depth) idx (length xs))
          else resolve_loop tokens (xs ! nat idx) (Suc depth) rest)"
| "resolve_loop tokens (PDict kvs) depth (tok # rest) =
     (case map_of kvs (PStr tok) of
        None \<Rightarrow>
          Inl (KeyNotFound (path_so_far tokens depth) tok (take 10 (map fst kvs))
                 (length kvs > 10))
      | Some v \<Rightarrow> resolve_loop tokens v (Suc depth) rest)"
| "resolve_loop tokens cur depth (tok # rest) =
     Inl (CannotDescend (path_so_far tokens depth) (type_name cur))"

definition resolve :: "pyobj \<Rightarrow> string list \<Rightarrow> exit_error + pyobj" where
  "resolve obj tokens = resolve_loop tokens obj 1 tokens"

text \<open>
  \<open>main\<close> of \<open>yaml-show.py\<close> up to the resolved node: the pointer is parsed, without
  its trailing slashes, before the document is touched.
\<close>

definition show_main :: "string \<Rightarrow> pyobj \<Rightarrow> exit_error + pyobj" where
  "show_main path data =
     (case parse_pointer (rstrip CHR ''/'' path) of
        Inl e \<Rightarrow> Inl e
      | Inr tokens \<Rightarrow> resolve data tokens)"

section \<open>Notions used to state the properties\<close>

text \<open>
  \<open>node_at t p n\<close>: \<open>n\<close> is the node of \<open>t\<close> at path \<open>p\<close>, the path being built as
  \<open>search\<close> builds its \<open>tokens\<close>: the key for an item of a mapping, the index for an
  element of a sequence.
\<close>

inductive node_at :: "pyobj \<Rightarrow> scalar list \<Rightarrow> pyobj \<Rightarrow> bool" where
  at_root: "node_at t [] t"
| at_elem: "i < length xs \<Longrightarrow> node_at (xs ! i) p n \<Longrightarrow> node_at (PList xs) (PInt (int i) # p) n"
| at_item: "(k, v) \<in> set kvs \<Longrightarrow> node_at v p n \<Longrightarrow> node_at (PDict kvs) (k # p) n"

text \<open>
  A document all of whose mapping keys are non-empty strings. The keys of one mapping
  are distinct, as those of a \<open>dict\<close> always are, and a sequence has fewer than
  \<open>2 ^ 63\<close> elements, as a \<open>list\<close> always has (\<open>len\<close> is at most \<open>sys.maxsize\<close>).
\<close>

fun is_nonempty_str :: "scalar \<Rightarrow> bool" where
  "is_nonempty_str (PStr x) = (x \<noteq> [])"
| "is_nonempty_str k = False"

fun str_keyed :: "pyobj \<Rightarrow> bool" where
  "str_keyed (PList xs) = (length xs < 2 ^ 63 \<and> list_all str_keyed xs)"
| "str_keyed (PDict kvs) =
     (distinct (map fst kvs) \<and> list_all is_nonempty_str (map fst kvs)
      \<and> list_all str_keyed (map snd kvs))"
| "str_keyed v = True"

text \<open>
  The tokens of a path in such a document, and the string each stands for once its
  pointer is decoded: the key itself, or the decimal text of the index.
\<close>

fun good_token :: "scalar \<Rightarrow> bool" where
  "good_token (PStr k) = (k \<noteq> [])"
| "good_token (PInt i) = (0 \<le> i)"
| "good_token t = False"

fun token_text :: "scalar \<Rightarrow> string" where
  "token_text (PStr k) = k"
| "token_text (PInt i) = str_int i"
| "token_text t = []"

text \<open>
  The pattern \<open>re.compile(lit)\<close> of a non-empty text without regex metacharacters: it is
  found where the text occurs, and \<open>finditer\<close> yields the occurrences from the left
  that do not overlap.
\<close>

function literal_spans :: "string \<Rightarrow> nat \<Rightarrow> string \<Rightarrow> (nat \<times> nat) list" where
  "literal_spans lit pos s =
     (if s = [] then []
      else if lit \<noteq> [] \<and> prefix lit s
      then (pos, pos + length lit) # literal_spans lit (pos + length lit) (drop (length lit) s)
      else literal_spans lit (Suc pos) (tl s))"
  by pat_completeness auto
termination
  by (relation "measure (\<lambda>(lit, pos, s). length s)") auto

declare literal_spans.simps [simp del]

definition literal_pattern :: "string \<Rightarrow> pattern" where
  "literal_pattern lit =
     \<lparr>rx_search = (\<lambda>s. literal_spans lit 0 s \<noteq> []), rx_finditer = literal_spans lit 0\<rparr>"





section \<open>Facts about the string primitives\<close>

lemma replace_Nil [simp]: "old \<noteq> [] \<Longrightarrow> replace old new [] = []"
  by (simp add: replace.simps)

lemma replace_Cons_hit:
  "old \<noteq> [] \<Longrightarrow> prefix old (c # cs) \<Longrightarrow>
   replace old new (c # cs) = new @ replace old new (drop (length old) (c # cs))"
  by (subst replace.simps) simp

lemma replace_Cons_miss:
  "old \<noteq> [] \<Longrightarrow> \<not> prefix old (c # cs) \<Longrightarrow>
   replace old new (c # cs) = c # replace old new cs"
  by (subst replace.simps) simp

lemma replace_char:
  "replace [a] new s = concat (map (\<lambda>c. if c = a then new else [c]) s)"
  by (induction s) (simp_all add: replace_Cons_hit replace_Cons_miss)

lemma replace_absent:
  "old \<noteq> [] \<Longrightarrow> hd old \<notin> set s \<Longrightarrow> replace old new s = s"
proof (induction s)
  case Nil
  then show ?case by simp
next
  case (Cons c cs)
  then have "\<not> prefix old (c # cs)"
    by (cases old) auto
  with Cons show ?case
    by (simp add: replace_Cons_miss)
qed

lemma replace_nonempty:
  "old \<noteq> [] \<Longrightarrow> new \<noteq> [] \<Longrightarrow> s \<noteq> [] \<Longrightarrow> replace old new s \<noteq> []"
  by (cases s; cases "prefix old s") (simp_all add: replace_Cons_hit replace_Cons_miss)

lemma unescape_token_nonempty: "p \<noteq> [] \<Longrightarrow> unescape_token p \<noteq> []"
  by (simp add: unescape_token_def replace_nonempty)

lemma json_pointer_escape_concat:
  "json_pointer_escape t = concat (map esc_char t)"
  unfolding json_pointer_escape_def replace_char
  by (induction t) (simp_all add: esc_char_def)

lemma unescape_step1:
  "replace ''~1'' ''/'' (concat (map esc_char t)) =
   concat (map (\<lambda>c. if c = CHR ''~'' then ''~0'' else [c]) t)"
  by (induction t) (simp_all add: esc_char_def replace_Cons_hit replace_Cons_miss)

lemma unescape_step2:
  "replace ''~0'' ''~'' (concat (map (\<lambda>c. if c = CHR ''~'' then ''~0'' else [c]) t)) = t"
  by (induction t) (simp_all add: replace_Cons_hit replace_Cons_miss)

lemma unescape_escape: "unescape_token (json_pointer_escape t) = t"
  by (simp add: unescape_token_def json_pointer_escape_concat unescape_step1 unescape_step2)

lemma rstrip_keeps_head:
  assumes "s \<noteq> []" "hd s \<noteq> c"
  shows "rstrip c s \<noteq> [] \<and> hd (rstrip c s) = hd s"
proof -
  obtain x xs where s: "s = x # xs" using assms(1) by (cases s) auto
  with assms(2) have "x \<noteq> c" by simp
  then show ?thesis
    unfolding s rstrip_def by (simp add: dropWhile_append)
qed

lemma prefix_slash: "prefix ''/'' s \<longleftrightarrow> s \<noteq> [] \<and> hd s = CHR ''/''"
  by (cases s) auto

lemma unescaped_nonempty:
  assumes "q \<in> set (map unescape_token (filter (\<lambda>p. p \<noteq> []) ps))"
  shows "q \<noteq> []"
proof -
  from assms obtain p where "p \<noteq> []" "q = unescape_token p"
    by auto
  then show ?thesis
    by (simp add: unescape_token_nonempty)
qed

section \<open>Facts about decimal text\<close>

lemma digit_char_cases:
  assumes "d < 10"
  shows "digit_char d \<in> set ''0123456789'' \<and> digit_val (digit_char d) = d"
proof -
  from assms have "d = 0 \<or> d = 1 \<or> d = 2 \<or> d = 3 \<or> d = 4 \<or> d = 5 \<or> d = 6 \<or> d = 7
      \<or> d = 8 \<or> d = 9"
    by arith
  then show ?thesis
    by (elim disjE) (simp_all add: digit_char_def digit_val_def)
qed

lemma is_digit_digit_char: "d < 10 \<Longrightarrow> is_digit (digit_char d)"
  using digit_char_cases by (simp add: is_digit_def)

lemma digit_val_digit_char: "d < 10 \<Longrightarrow> digit_val (digit_char d) = d"
  using digit_char_cases by simp

lemma is_digit_plain:
  "is_digit c \<Longrightarrow> \<not> is_space c \<and> c \<noteq> CHR ''-'' \<and> c \<noteq> CHR ''+'' \<and> c \<noteq> CHR ''/'' \<and> c \<noteq> CHR ''~''"
  by (auto simp: is_digit_def is_space_def)

lemma str_nat_digits: "str_nat n \<noteq> [] \<and> list_all is_digit (str_nat n)"
proof (induction n rule: str_nat.induct)
  case (1 n)
  show ?case
  proof (cases "n < 10")
    case True
    then show ?thesis
      by (subst (1 2) str_nat.simps) (simp add: is_digit_digit_char)
  next
    case False
    with 1 show ?thesis
      by (subst (1 2) str_nat.simps) (simp add: is_digit_digit_char)
  qed
qed

lemma digits_value_snoc: "digits_value (ds @ [c]) = 10 * digits_value ds + digit_val c"
  by (simp add: digits_value_def)

lemma digits_value_str_nat: "digits_value (str_nat n) = n"
proof (induction n rule: str_nat.induct)
  case (1 n)
  show ?case
  proof (cases "n < 10")
    case True
    then show ?thesis
      by (subst str_nat.simps) (simp add: digits_value_def digit_val_digit_char)
  next
    case False
    with 1 show ?thesis
      by (subst str_nat.simps) (simp add: digits_value_snoc digit_val_digit_char)
  qed
qed

lemma valid_body_digits: "ds \<noteq> [] \<Longrightarrow> list_all is_digit ds \<Longrightarrow> valid_body prev ds"
proof (induction ds arbitrary: prev)
  case Nil
  then show ?case by simp
next
  case (Cons c cs)
  then show ?case by (cases cs) simp_all
qed

lemma strip_unchanged:
  assumes "s \<noteq> []" "\<not> is_space (hd s)" "\<not> is_space (last s)"
  shows "strip s = s"
proof -
  from assms have a: "dropWhile is_space s = s"
    by (cases s) simp_all
  from assms have "dropWhile is_space (rev s) = rev s"
    by (cases "rev s") (simp_all add: last_rev [symmetric] hd_rev)
  with a show ?thesis by (simp add: strip_def)
qed

lemma filter_digits: "list_all is_digit ds \<Longrightarrow> filter is_digit ds = ds"
  by (induction ds) simp_all

lemma py_int_digits:
  assumes "ds \<noteq> []" "list_all is_digit ds" "length ds \<le> max_str_digits"
  shows "py_int ds = Some (int (digits_value ds))"
    and "py_int (CHR ''-'' # ds) = Some (- int (digits_value ds))"
proof -
  from assms have h: "is_digit (hd ds)" "is_digit (last ds)"
    by (cases ds, simp_all) (simp add: list_all_iff)
  with assms(1) have s1: "strip ds = ds"
    by (simp add: strip_unchanged is_digit_plain)
  have s2: "strip (CHR ''-'' # ds) = CHR ''-'' # ds"
  proof (rule strip_unchanged)
    show "CHR ''-'' # ds \<noteq> []" by simp
    show "\<not> is_space (hd (CHR ''-'' # ds))" by (simp add: is_space_def)
    from assms(1) h(2) show "\<not> is_space (last (CHR ''-'' # ds))"
      by (simp add: is_digit_plain)
  qed
  from h have n: "hd ds \<noteq> CHR ''-''" "hd ds \<noteq> CHR ''+''"
    by (simp_all add: is_digit_plain)
  from assms n show "py_int ds = Some (int (digits_value ds))"
    by (simp add: py_int_def s1 valid_body_digits filter_digits)
  from assms show "py_int (CHR ''-'' # ds) = Some (- int (digits_value ds))"
    by (simp add: py_int_def s2 valid_body_digits filter_digits)
qed

lemma py_int_str_int:
  "length (str_nat (nat \<bar>i\<bar>)) \<le> max_str_digits \<Longrightarrow> py_int (str_int i) = Some i"
  by (cases "i < 0")
    (simp_all add: str_int_def py_int_digits str_nat_digits digits_value_str_nat)

lemma length_str_nat: "n < 10 ^ k \<Longrightarrow> 0 < k \<Longrightarrow> length (str_nat n) \<le> k"
proof (induction n arbitrary: k rule: str_nat.induct)
  case (1 n)
  show ?case
  proof (cases "n < 10")
    case True
    with 1(3) show ?thesis
      by (subst str_nat.simps) simp
  next
    case False
    obtain j where k: "k = Suc j" using 1(3) by (cases k) simp_all
    from False 1(2) have "0 < j"
      by (cases j) (simp_all add: k)
    moreover from 1(2) have "n div 10 < 10 ^ j"
      by (simp add: k less_mult_imp_div_less mult.commute)
    ultimately have "length (str_nat (n div 10)) \<le> j"
      using 1(1) False by simp
    with False show ?thesis
      by (subst str_nat.simps) (simp add: k)
  qed
qed

lemma py_int_index: "i < 2 ^ 63 \<Longrightarrow> py_int (str_int (int i)) = Some (int i)"
proof -
  assume "i < 2 ^ 63"
  then have "i < 10 ^ 19" by simp
  then have "length (str_nat i) \<le> 19"
    by (rule length_str_nat) simp
  then show ?thesis
    by (intro py_int_str_int) (simp add: max_str_digits_def)
qed

lemma filter_dropWhile_other:
  "(\<And>x. P x \<Longrightarrow> \<not> Q x) \<Longrightarrow> filter Q (dropWhile P s) = filter Q s"
  by (induction s) auto

lemma digits_of_strip: "filter is_digit (strip s) = filter is_digit s"
proof -
  have sp: "\<And>x. is_space x \<Longrightarrow> \<not> is_digit x"
    using is_digit_plain by blast
  have "filter is_digit (strip s) = rev (filter is_digit (dropWhile is_space (rev (dropWhile is_space s))))"
    by (simp add: strip_def rev_filter)
  also have "\<dots> = rev (filter is_digit (rev (dropWhile is_space s)))"
    using sp by (simp add: filter_dropWhile_other)
  also have "\<dots> = filter is_digit (dropWhile is_space s)"
    by (simp add: rev_filter)
  also have "\<dots> = filter is_digit s"
    using sp by (simp add: filter_dropWhile_other)
  finally show ?thesis .
qed

lemma digits_of_tl:
  "t \<noteq> [] \<Longrightarrow> \<not> is_digit (hd t) \<Longrightarrow> filter is_digit (tl t) = filter is_digit t"
  by (cases t) simp_all

lemma py_int_over_limit:
  assumes "max_str_digits < length (filter is_digit tok)"
  shows "py_int tok = None"
proof -
  let ?t = "strip tok"
  let ?body = "if ?t \<noteq> [] \<and> (hd ?t = CHR ''-'' \<or> hd ?t = CHR ''+'') then tl ?t else ?t"
  have "filter is_digit ?body = filter is_digit ?t"
    by (auto simp: digits_of_tl is_digit_def)
  then have "filter is_digit ?body = filter is_digit tok"
    by (simp only: digits_of_strip)
  with assms have "\<not> length (filter is_digit ?body) \<le> max_str_digits"
    by simp
  then show ?thesis
    unfolding py_int_def Let_def by (simp only: simp_thms if_False)
qed

section \<open>The pointer codec\<close>

text \<open>
  C4. Escaping a token (\<open>~\<close> to \<open>~0\<close>, then \<open>/\<close> to \<open>~1\<close>) and unescaping the result
  (\<open>~1\<close> to \<open>/\<close>, then \<open>~0\<close> to \<open>~\<close>) gives the token back, whatever characters it
  has; the key \<open>a/b\<close> is the segment \<open>a~1b\<close> and the key \<open>a~b\<close> the segment \<open>a~0b\<close>.
\<close>

theorem escape_roundtrip:
  "unescape_token (json_pointer_escape token) = token
   \<and> json_pointer_escape ''a/b'' = ''a~1b'' \<and> unescape_token ''a~1b'' = ''a/b''
   \<and> json_pointer_escape ''a~b'' = ''a~0b'' \<and> unescape_token ''a~0b'' = ''a~b''"
proof -
  have e1: "json_pointer_escape ''a/b'' = ''a~1b''"
    by (simp add: json_pointer_escape_concat esc_char_def)
  have e2: "json_pointer_escape ''a~b'' = ''a~0b''"
    by (simp add: json_pointer_escape_concat esc_char_def)
  have "unescape_token ''a~1b'' = ''a/b''"
    using unescape_escape [of "''a/b''"] by (simp only: e1)
  moreover have "unescape_token ''a~0b'' = ''a~b''"
    using unescape_escape [of "''a~b''"] by (simp only: e2)
  ultimately show ?thesis
    using e1 e2 unescape_escape by blast
qed

theorem escape_roundtrip_witness:
  "unescape_token (json_pointer_escape ''~1/~0'') = ''~1/~0''
   \<and> json_pointer_escape ''~1/~0'' = ''~01~1~00''"
  using escape_roundtrip [of "''~1/~0''"]
  by (simp add: json_pointer_escape_concat esc_char_def)

text \<open>
  C10. A pointer is parsed only when it is empty or begins with \<open>/\<close>. Any other pointer
  is rejected by \<open>parse_pointer\<close>, and \<open>main\<close> stops with that error whatever the
  document is, so before anything is resolved.
\<close>

theorem parse_pointer_rejects_relative:
  "((\<exists>toks. parse_pointer ptr = Inr toks) \<longleftrightarrow> ptr = [] \<or> prefix ''/'' ptr)
   \<and> (ptr \<noteq> [] \<and> \<not> prefix ''/'' ptr \<longrightarrow>
        parse_pointer ptr = Inl (PathMustStartWithSlash ptr)
        \<and> show_main ptr data = Inl (PathMustStartWithSlash (rstrip CHR ''/'' ptr)))"
proof -
  have a: "(\<exists>toks. parse_pointer ptr = Inr toks) \<longleftrightarrow> ptr = [] \<or> prefix ''/'' ptr"
    by (auto simp: parse_pointer_def)
  have b: "parse_pointer ptr = Inl (PathMustStartWithSlash ptr)
        \<and> show_main ptr data = Inl (PathMustStartWithSlash (rstrip CHR ''/'' ptr))"
    if h: "ptr \<noteq> []" "\<not> prefix ''/'' ptr"
  proof -
    from h have "hd ptr \<noteq> CHR ''/''" by (simp add: prefix_slash)
    with h(1) have r: "rstrip CHR ''/'' ptr \<noteq> []" "hd (rstrip CHR ''/'' ptr) \<noteq> CHR ''/''"
      using rstrip_keeps_head [of ptr "CHR ''/''"] by simp_all
    then have "\<not> prefix ''/'' (rstrip CHR ''/'' ptr)" "rstrip CHR ''/'' ptr \<noteq> ''/''"
      by (auto simp: prefix_slash)
    with r(1) h show ?thesis
      by (simp add: parse_pointer_def show_main_def)
  qed
  from a b show ?thesis by blast
qed

theorem parse_pointer_rejects_relative_witness:
  "parse_pointer ''a/b/'' = Inl (PathMustStartWithSlash ''a/b/'')
   \<and> show_main ''a/b/'' (PList []) = Inl (PathMustStartWithSlash ''a/b'')"
  using parse_pointer_rejects_relative [of "''a/b/''" "PList []"]
  by (simp add: rstrip_def)

text \<open>
  C3, as the specification states it, fails: \<open>/a//b\<close> decodes to the two tokens \<open>a\<close>
  and \<open>b\<close>; the empty segment between the two slashes is not kept.
\<close>

theorem interior_empty_segment_dropped:
  "parse_pointer ''/a//b'' = Inr [''a'', ''b''] \<and> parse_pointer ''/a//b'' \<noteq> Inr [''a'', [], ''b'']"
  by (simp add: parse_pointer_def unescape_token_def replace_absent)

text \<open>
  C3, amended. Decoding a pointer that begins with \<open>/\<close> splits what follows the first
  character on \<open>/\<close>, drops every empty segment, wherever it is, and unescapes the
  others; so no decoded token is ever the empty string.
\<close>

theorem parse_pointer_drops_every_empty_segment:
  "(prefix ''/'' ptr \<and> ptr \<noteq> ''/'' \<longrightarrow>
      parse_pointer ptr =
        Inr (map unescape_token (filter (\<lambda>p. p \<noteq> []) (split CHR ''/'' (tl ptr)))))
   \<and> (parse_pointer ptr = Inr toks \<longrightarrow> [] \<notin> set toks)"
proof (intro conjI impI)
  assume "prefix ''/'' ptr \<and> ptr \<noteq> ''/''"
  then show "parse_pointer ptr =
        Inr (map unescape_token (filter (\<lambda>p. p \<noteq> []) (split CHR ''/'' (tl ptr))))"
    unfolding parse_pointer_def by (cases ptr) simp_all
next
  assume p: "parse_pointer ptr = Inr toks"
  show "[] \<notin> set toks"
  proof (cases "ptr = [] \<or> ptr = ''/''")
    case True
    with p show ?thesis by (auto simp: parse_pointer_def)
  next
    case False
    with p have "toks = map unescape_token (filter (\<lambda>p. p \<noteq> []) (split CHR ''/'' (drop 1 ptr)))"
      by (simp add: parse_pointer_def split: if_splits)
    then show ?thesis
      using unescaped_nonempty by blast
  qed
qed

theorem parse_pointer_drops_every_empty_segment_witness:
  "parse_pointer ''//a///b~1//'' = Inr [''a'', ''b/'']"
  using parse_pointer_drops_every_empty_segment [of "''//a///b~1//''" "[''a'', ''b/'']"]
  by (simp add: unescape_token_def replace_absent replace_Cons_hit replace_Cons_miss)

section \<open>The resolver\<close>

lemma resolve_loop_success_indep:
  "resolve_loop T cur d toks = Inr r \<Longrightarrow> resolve_loop T' cur d' toks = Inr r"
proof (induction toks arbitrary: cur d d')
  case Nil
  then show ?case by simp
next
  case (Cons tok rest)
  show ?case
  proof (cases cur)
    case (Scalar x)
    with Cons.prems show ?thesis by simp
  next
    case (PList xs)
    with Cons.prems Cons.IH show ?thesis
      by (auto split: option.splits if_splits)
  next
    case (PDict kvs)
    with Cons.prems Cons.IH show ?thesis
      by (auto split: option.splits)
  next
    case (POther ty)
    with Cons.prems show ?thesis by simp
  qed
qed

lemma resolve_loop_append:
  "resolve_loop T cur d (xs @ ys) =
     (case resolve_loop T cur d xs of
        Inl e \<Rightarrow> Inl e
      | Inr c \<Rightarrow> resolve_loop T c (d + length xs) ys)"
proof (induction xs arbitrary: cur d)
  case Nil
  then show ?case by simp
next
  case (Cons tok rest)
  show ?case
  proof (cases cur)
    case (PList elems)
    with Cons.IH show ?thesis
      by (auto split: option.splits sum.splits)
  next
    case (PDict kvs)
    with Cons.IH show ?thesis
      by (auto split: option.splits sum.splits)
  qed simp_all
qed

lemma resolve_reached:
  assumes "resolve obj pre = Inr cur"
  shows "resolve obj (pre @ toks) = resolve_loop (pre @ toks) cur (Suc (length pre)) toks"
proof -
  from assms have "resolve_loop (pre @ toks) obj 1 pre = Inr cur"
    unfolding resolve_def by (rule resolve_loop_success_indep)
  then show ?thesis
    by (simp add: resolve_def resolve_loop_append)
qed

lemma path_so_far_consumed: "path_so_far (pre @ toks) (Suc (length pre)) = ''/'' @ join ''/'' pre"
  by (simp add: path_so_far_def)

lemma map_of_absent: "k \<notin> set (map fst kvs) \<Longrightarrow> map_of kvs k = None"
  by (simp add: map_of_eq_None_iff)

text \<open>
  C5. When the resolver has reached a mapping that has no key equal to the next token,
  it fails with \<open>KeyNotFound\<close>: the path consumed so far, the token, and the first ten
  keys at most. When it has reached a node that is no container and a token remains, it
  fails with \<open>CannotDescend\<close>: the consumed path and the type of the node, which is
  \<open>str\<close>, \<open>int\<close>, \<open>float\<close>, \<open>bool\<close> or \<open>NoneType\<close> for a scalar and the node's own
  type for any other value. On \<open>{"a": {"b": 1}}\<close> the pointer \<open>/a/c\<close> gives \<open>KeyNotFound\<close>
  at \<open>/a\<close> for \<open>c\<close>, and \<open>/a/b/x\<close> gives \<open>CannotDescend\<close> at \<open>/a/b\<close>.
\<close>

theorem resolve_error_precision:
  "(resolve obj pre = Inr (PDict kvs) \<and> PStr tok \<notin> set (map fst kvs) \<longrightarrow>
      resolve obj (pre @ tok # rest) =
        Inl (KeyNotFound (''/'' @ join ''/'' pre) tok (take 10 (map fst kvs)) (10 < length kvs))
      \<and> length (take 10 (map fst kvs)) \<le> 10)
   \<and> (resolve obj pre = Inr cur \<and> \<not> is_container cur \<longrightarrow>
      resolve obj (pre @ tok # rest) =
        Inl (CannotDescend (''/'' @ join ''/'' pre) (type_name cur)))
   \<and> show_main ''/a/c'' (PDict [(PStr ''a'', PDict [(PStr ''b'', Scalar (PInt 1))])]) =
        Inl (KeyNotFound ''/a'' ''c'' [PStr ''b''] False)
   \<and> show_main ''/a/b/x'' (PDict [(PStr ''a'', PDict [(PStr ''b'', Scalar (PInt 1))])]) =
        Inl (CannotDescend ''/a/b'' ''int'')
   \<and> (resolve obj pre = Inr (Scalar (PStr x)) \<longrightarrow>
        resolve obj (pre @ tok # rest) = Inl (CannotDescend (''/'' @ join ''/'' pre) ''str''))
   \<and> (resolve obj pre = Inr (Scalar (PInt i)) \<longrightarrow>
        resolve obj (pre @ tok # rest) = Inl (CannotDescend (''/'' @ join ''/'' pre) ''int''))
   \<and> (resolve obj pre = Inr (Scalar (PFloat f)) \<longrightarrow>
        resolve obj (pre @ tok # rest) = Inl (CannotDescend (''/'' @ join ''/'' pre) ''float''))
   \<and> (resolve obj pre = Inr (Scalar (PBool b)) \<longrightarrow>
        resolve obj (pre @ tok # rest) = Inl (CannotDescend (''/'' @ join ''/'' pre) ''bool''))
   \<and> (resolve obj pre = Inr (Scalar PNone) \<longrightarrow>
        resolve obj (pre @ tok # rest) =
          Inl (CannotDescend (''/'' @ join ''/'' pre) ''NoneType''))
   \<and> (resolve obj pre = Inr (POther ty) \<longrightarrow>
        resolve obj (pre @ tok # rest) = Inl (CannotDescend (''/'' @ join ''/'' pre) ty))"
proof -
  have key: "resolve obj (pre @ tok # rest) =
        Inl (KeyNotFound (''/'' @ join ''/'' pre) tok (take 10 (map fst kvs)) (10 < length kvs))"
    if h: "resolve obj pre = Inr (PDict kvs) \<and> PStr tok \<notin> set (map fst kvs)"
  proof -
    from h have "map_of kvs (PStr tok) = None"
      by (simp add: map_of_absent)
    with h show ?thesis
      by (simp add: resolve_reached path_so_far_consumed)
  qed
  have leaf: "resolve obj (pre @ tok # rest) =
        Inl (CannotDescend (''/'' @ join ''/'' pre) (type_name c))"
    if h: "resolve obj pre = Inr c" "\<not> is_container c" for c
  proof -
    from h(2) have "resolve_loop T c d (tok # rest) =
        Inl (CannotDescend (path_so_far T d) (type_name c))" for T d
      by (cases c) simp_all
    with h(1) show ?thesis
      by (simp add: resolve_reached path_so_far_consumed)
  qed
  have ex1: "show_main ''/a/c'' (PDict [(PStr ''a'', PDict [(PStr ''b'', Scalar (PInt 1))])]) =
        Inl (KeyNotFound ''/a'' ''c'' [PStr ''b''] False)"
    by (simp add: show_main_def rstrip_def parse_pointer_def unescape_token_def replace_absent
        resolve_def path_so_far_def)
  have ex2: "show_main ''/a/b/x'' (PDict [(PStr ''a'', PDict [(PStr ''b'', Scalar (PInt 1))])]) =
        Inl (CannotDescend ''/a/b'' ''int'')"
    by (simp add: show_main_def rstrip_def parse_pointer_def unescape_token_def replace_absent
        resolve_def path_so_far_def)
  have k1: "resolve obj pre = Inr (Scalar (PStr x)) \<longrightarrow>
        resolve obj (pre @ tok # rest) = Inl (CannotDescend (''/'' @ join ''/'' pre) ''str'')"
    using leaf [of "Scalar (PStr x)"] by simp
  have k2: "resolve obj pre = Inr (Scalar (PInt i)) \<longrightarrow>
        resolve obj (pre @ tok # rest) = Inl (CannotDescend (''/'' @ join ''/'' pre) ''int'')"
    using leaf [of "Scalar (PInt i)"] by simp
  have k3: "resolve obj pre = Inr (Scalar (PFloat f)) \<longrightarrow>
        resolve obj (pre @ tok # rest) = Inl (CannotDescend (''/'' @ join ''/'' pre) ''float'')"
    using leaf [of "Scalar (PFloat f)"] by simp
  have k4: "resolve obj pre = Inr (Scalar (PBool b)) \<longrightarrow>
        resolve obj (pre @ tok # rest) = Inl (CannotDescend (''/'' @ join ''/'' pre) ''bool'')"
    using leaf [of "Scalar (PBool b)"] by simp
  have k5: "resolve obj pre = Inr (Scalar PNone) \<longrightarrow>
        resolve obj (pre @ tok # rest) =
          Inl (CannotDescend (''/'' @ join ''/'' pre) ''NoneType'')"
    using leaf [of "Scalar PNone"] by simp
  have k6: "resolve obj pre = Inr (POther ty) \<longrightarrow>
        resolve obj (pre @ tok # rest) = Inl (CannotDescend (''/'' @ join ''/'' pre) ty)"
    using leaf [of "POther ty"] by simp
  have len: "length (take 10 (map fst kvs)) \<le> 10" by simp
  from key leaf [of cur] len ex1 ex2 k1 k2 k3 k4 k5 k6 show ?thesis
    by blast
qed

theorem resolve_error_precision_witness:
  "resolve (PDict [(PStr ''a'', PDict [(PStr ''b'', Scalar (PInt 1))])]) [''a'', ''c'', ''d''] =
     Inl (KeyNotFound ''/a'' ''c'' [PStr ''b''] False)
   \<and> resolve (PDict [(PStr ''a'', PDict [(PStr ''b'', Scalar (PInt 1))])]) [''a'', ''b'', ''x''] =
     Inl (CannotDescend ''/a/b'' ''int'')
   \<and> resolve (PList [Scalar (PStr ''v''), Scalar PNone, Scalar (PBool True), POther ''date''])
        [''0'', ''x''] = Inl (CannotDescend ''/0'' ''str'')
   \<and> resolve (PList [Scalar (PStr ''v''), Scalar PNone, Scalar (PBool True), POther ''date''])
        [''1'', ''x''] = Inl (CannotDescend ''/1'' ''NoneType'')
   \<and> resolve (PList [Scalar (PStr ''v''), Scalar PNone, Scalar (PBool True), POther ''date''])
        [''2'', ''x''] = Inl (CannotDescend ''/2'' ''bool'')
   \<and> resolve (PList [Scalar (PStr ''v''), Scalar PNone, Scalar (PBool True), POther ''date''])
        [''3'', ''x''] = Inl (CannotDescend ''/3'' ''date'')"
proof -
  let ?doc = "PDict [(PStr ''a'', PDict [(PStr ''b'', Scalar (PInt 1))])]"
  let ?lst = "PList [Scalar (PStr ''v''), Scalar PNone, Scalar (PBool True), POther ''date'']"
  have r1: "resolve ?doc [''a''] = Inr (PDict [(PStr ''b'', Scalar (PInt 1))])"
    by (simp add: resolve_def)
  have r2: "resolve ?doc [''a'', ''b''] = Inr (Scalar (PInt 1))"
    by (simp add: resolve_def)
  have r3: "resolve ?lst [''0''] = Inr (Scalar (PStr ''v''))"
    "resolve ?lst [''1''] = Inr (Scalar PNone)"
    "resolve ?lst [''2''] = Inr (Scalar (PBool True))"
    "resolve ?lst [''3''] = Inr (POther ''date'')"
    by code_simp+
  from r1 resolve_error_precision [where obj = ?doc and pre = "[''a'']"
      and kvs = "[(PStr ''b'', Scalar (PInt 1))]" and tok = "''c''" and rest = "[''d'']"]
  have a: "resolve ?doc [''a'', ''c'', ''d''] = Inl (KeyNotFound ''/a'' ''c'' [PStr ''b''] False)"
    by simp
  from r2 resolve_error_precision [where obj = ?doc and pre = "[''a'', ''b'']"
      and tok = "''x''" and rest = "[]" and cur = "Scalar (PInt 1)"]
  have b: "resolve ?doc [''a'', ''b'', ''x''] = Inl (CannotDescend ''/a/b'' ''int'')"
    by simp
  from r3(1) resolve_error_precision [where obj = ?lst and pre = "[''0'']"
      and tok = "''x''" and rest = "[]" and x = "''v''"]
  have c: "resolve ?lst [''0'', ''x''] = Inl (CannotDescend ''/0'' ''str'')"
    by simp
  from r3(2) resolve_error_precision [where obj = ?lst and pre = "[''1'']"
      and tok = "''x''" and rest = "[]"]
  have d: "resolve ?lst [''1'', ''x''] = Inl (CannotDescend ''/1'' ''NoneType'')"
    by simp
  from r3(3) resolve_error_precision [where obj = ?lst and pre = "[''2'']"
      and tok = "''x''" and rest = "[]" and b = True]
  have e: "resolve ?lst [''2'', ''x''] = Inl (CannotDescend ''/2'' ''bool'')"
    by simp
  from r3(4) resolve_error_precision [where obj = ?lst and pre = "[''3'']"
      and tok = "''x''" and rest = "[]" and ty = "''date''"]
  have f: "resolve ?lst [''3'', ''x''] = Inl (CannotDescend ''/3'' ''date'')"
    by simp
  from a b c d e f show ?thesis by simp
qed

text \<open>
  C6. When the resolver has reached a sequence, the next token must be accepted by
  \<open>int\<close>, or the call fails with \<open>NotAnIndex\<close> (consumed path, token); an index that is
  negative or not below the length fails with \<open>IndexOutOfRange\<close> (consumed path, index,
  length); any other index descends to the element at that index. \<open>int\<close> accepts the
  decimal text of every integer of at most 4300 digits, with that value, and refuses every
  token with more than 4300 digits, which is then \<open>NotAnIndex\<close>.
\<close>

theorem resolve_sequence_index:
  "(resolve obj pre = Inr (PList xs) \<longrightarrow>
     (py_int tok = None \<longrightarrow>
        resolve obj (pre @ tok # rest) = Inl (NotAnIndex (''/'' @ join ''/'' pre) tok))
   \<and> (py_int tok = Some idx \<and> (idx < 0 \<or> int (length xs) \<le> idx) \<longrightarrow>
        resolve obj (pre @ tok # rest) =
          Inl (IndexOutOfRange (''/'' @ join ''/'' pre) idx (length xs)))
   \<and> (py_int tok = Some idx \<and> 0 \<le> idx \<and> idx < int (length xs) \<longrightarrow>
        resolve obj (pre @ [tok]) = Inr (xs ! nat idx)
        \<and> resolve obj (pre @ tok # rest) =
            resolve_loop (pre @ tok # rest) (xs ! nat idx) (Suc (Suc (length pre))) rest)
   \<and> (4300 < length (filter is_digit tok) \<longrightarrow>
        resolve obj (pre @ tok # rest) = Inl (NotAnIndex (''/'' @ join ''/'' pre) tok)))
   \<and> (length (str_nat (nat \<bar>i\<bar>)) \<le> 4300 \<longrightarrow> py_int (str_int i) = Some i)
   \<and> (4300 < length (filter is_digit tok) \<longrightarrow> py_int tok = None)"
proof -
  have lim: "py_int tok = None" if "4300 < length (filter is_digit tok)"
    using that by (intro py_int_over_limit) (simp add: max_str_digits_def)
  have dec: "py_int (str_int i) = Some i" if "length (str_nat (nat \<bar>i\<bar>)) \<le> 4300"
    using that by (intro py_int_str_int) (simp add: max_str_digits_def)
  have seq: "resolve obj (pre @ ts) = resolve_loop (pre @ ts) (PList xs) (Suc (length pre)) ts"
    if "resolve obj pre = Inr (PList xs)" for ts
    using that by (rule resolve_reached)
  show ?thesis
    using lim dec by (auto simp: seq path_so_far_consumed)
qed

theorem resolve_sequence_index_witness:
  "resolve (PList [Scalar PNone, PList [Scalar (PInt 7)]]) [''1'', ''x'', ''y''] = Inl (NotAnIndex ''/1'' ''x'')
   \<and> resolve (PList [Scalar PNone, PList [Scalar (PInt 7)]]) [''1'', ''1''] = Inl (IndexOutOfRange ''/1'' 1 1)
   \<and> resolve (PList [Scalar PNone, PList [Scalar (PInt 7)]]) [''1'', ''-1''] = Inl (IndexOutOfRange ''/1'' (- 1) 1)
   \<and> resolve (PList [Scalar PNone, PList [Scalar (PInt 7)]]) [''1'', '' +0_0 ''] = Inr (Scalar (PInt 7))
   \<and> resolve (PList [Scalar (PInt 10)]) [replicate 4301 CHR ''0''] =
        Inl (NotAnIndex ''/'' (replicate 4301 CHR ''0''))
   \<and> py_int (replicate 4301 CHR ''0'') = None
   \<and> py_int ''-123'' = Some (- 123)"
proof -
  let ?doc = "PList [Scalar PNone, PList [Scalar (PInt 7)]]"
  have r: "resolve ?doc [''1''] = Inr (PList [Scalar (PInt 7)])"
    by code_simp
  have p: "py_int ''x'' = None" "py_int ''1'' = Some 1" "py_int ''-1'' = Some (- 1)"
    "py_int '' +0_0 '' = Some 0"
    by code_simp+
  from r p resolve_sequence_index [where obj = ?doc and pre = "[''1'']"
      and xs = "[Scalar (PInt 7)]" and tok = "''x''" and rest = "[''y'']"]
  have a: "resolve ?doc [''1'', ''x'', ''y''] = Inl (NotAnIndex ''/1'' ''x'')" by simp
  from r p resolve_sequence_index [where obj = ?doc and pre = "[''1'']"
      and xs = "[Scalar (PInt 7)]" and tok = "''1''" and rest = "[]" and idx = 1]
  have b: "resolve ?doc [''1'', ''1''] = Inl (IndexOutOfRange ''/1'' 1 1)" by simp
  from r p resolve_sequence_index [where obj = ?doc and pre = "[''1'']"
      and xs = "[Scalar (PInt 7)]" and tok = "''-1''" and rest = "[]" and idx = "- 1"]
  have c: "resolve ?doc [''1'', ''-1''] = Inl (IndexOutOfRange ''/1'' (- 1) 1)" by simp
  from r p resolve_sequence_index [where obj = ?doc and pre = "[''1'']"
      and xs = "[Scalar (PInt 7)]" and tok = "'' +0_0 ''" and rest = "[]" and idx = 0]
  have d: "resolve ?doc [''1'', '' +0_0 ''] = Inr (Scalar (PInt 7))" by simp
  have z: "length (filter is_digit (replicate 4301 CHR ''0'')) = 4301"
    by (simp add: is_digit_def)
  have r0: "resolve (PList [Scalar (PInt 10)]) [] = Inr (PList [Scalar (PInt 10)])"
    by (simp add: resolve_def)
  from r0 z resolve_sequence_index [where obj = "PList [Scalar (PInt 10)]" and pre = "[]"
      and xs = "[Scalar (PInt 10)]" and tok = "replicate 4301 CHR ''0''" and rest = "[]"]
  have e: "resolve (PList [Scalar (PInt 10)]) [replicate 4301 CHR ''0''] =
        Inl (NotAnIndex ''/'' (replicate 4301 CHR ''0''))"
    and f: "py_int (replicate 4301 CHR ''0'') = None"
    by simp_all
  have s: "str_int (- 123) = ''-123''" "length (str_nat (nat \<bar>- 123\<bar>)) \<le> 4300"
    by (simp_all add: str_int_def str_nat.simps digit_char_def)
  from s resolve_sequence_index [where i = "- 123"]
  have g: "py_int ''-123'' = Some (- 123)"
    by simp
  from a b c d e f g show ?thesis by simp
qed

text \<open>
  C8. Resolving the empty token list gives the document itself, whatever kind of node
  it is; and whenever the loop has no token left, the current node is the result.
\<close>

theorem resolve_exhausted:
  "resolve obj [] = Inr obj \<and> resolve_loop tokens cur depth [] = Inr cur"
  by (simp add: resolve_def)

theorem resolve_exhausted_witness:
  "resolve (POther ''date'') [] = Inr (POther ''date'')
   \<and> resolve_loop [''a''] (Scalar PNone) 2 [] = Inr (Scalar PNone)"
  using resolve_exhausted [of "POther ''date''" "[''a'']" "Scalar PNone" 2]
  by simp

section \<open>Paths of the search through the pointer codec and the resolver\<close>

lemma split_no_sep: "sep \<notin> set p \<Longrightarrow> split sep p = [p]"
  by (induction p) auto

lemma split_append_sep:
  "sep \<notin> set p \<Longrightarrow> split sep (p @ sep # rest) = p # split sep rest"
  by (induction p) auto

lemma split_join:
  "parts \<noteq> [] \<Longrightarrow> \<forall>p \<in> set parts. sep \<notin> set p \<Longrightarrow> split sep (join [sep] parts) = parts"
proof (induction "[sep]" parts rule: join.induct)
  case 1
  then show ?case by simp
next
  case (2 p)
  then show ?case by (simp add: split_no_sep)
next
  case (3 p q ps)
  then show ?case by (simp add: split_append_sep)
qed

lemma join_nonempty: "parts \<noteq> [] \<Longrightarrow> [] \<notin> set parts \<Longrightarrow> join sep parts \<noteq> []"
  by (induction sep parts rule: join.induct) auto

lemma last_join:
  "parts \<noteq> [] \<Longrightarrow> [] \<notin> set parts \<Longrightarrow> last (join sep parts) = last (last parts)"
proof (induction sep parts rule: join.induct)
  case (3 sep p q ps)
  then have "join sep (q # ps) \<noteq> []"
    by (intro join_nonempty) auto
  with 3 show ?case by simp
qed simp_all

lemma rstrip_unchanged: "s \<noteq> [] \<Longrightarrow> last s \<noteq> c \<Longrightarrow> rstrip c s = s"
  by (cases "rev s") (simp_all add: rstrip_def last_rev [symmetric] hd_rev)

lemma escape_no_slash: "CHR ''/'' \<notin> set (json_pointer_escape t)"
  by (induction t) (auto simp: json_pointer_escape_concat esc_char_def)

lemma escape_nonempty: "t \<noteq> [] \<Longrightarrow> json_pointer_escape t \<noteq> []"
  by (cases t) (auto simp: json_pointer_escape_concat esc_char_def)

lemma str_int_nat_plain:
  "str_int (int i) \<noteq> [] \<and> CHR ''/'' \<notin> set (str_int (int i)) \<and> CHR ''~'' \<notin> set (str_int (int i))"
  using str_nat_digits [of i] is_digit_plain
  by (auto simp: str_int_def list_all_iff)

lemma unescape_str_int: "unescape_token (str_int (int i)) = str_int (int i)"
  using str_int_nat_plain [of i] by (simp add: unescape_token_def replace_absent)

lemma pointer_part_good:
  assumes "good_token t"
  shows "\<exists>seg. pointer_part t = Inr seg \<and> seg \<noteq> [] \<and> CHR ''/'' \<notin> set seg
           \<and> unescape_token seg = token_text t"
proof (cases t)
  case (PStr k)
  with assms show ?thesis
    by (simp add: escape_no_slash escape_nonempty unescape_escape)
next
  case (PInt i)
  with assms obtain m where "i = int m"
    using nonneg_int_cases by auto
  with PInt show ?thesis
    using str_int_nat_plain [of m] by (simp add: unescape_str_int)
qed (use assms in simp_all)

lemma pointer_parts_good:
  "list_all good_token p \<Longrightarrow>
   \<exists>parts. pointer_parts p = Inr parts \<and> [] \<notin> set parts \<and> (\<forall>q \<in> set parts. CHR ''/'' \<notin> set q)
      \<and> (parts = [] \<longleftrightarrow> p = []) \<and> map unescape_token parts = map token_text p"
proof (induction p)
  case Nil
  then show ?case by simp
next
  case (Cons t ts)
  then obtain seg where seg: "pointer_part t = Inr seg" "seg \<noteq> []" "CHR ''/'' \<notin> set seg"
      "unescape_token seg = token_text t"
    using pointer_part_good [of t] by auto
  from Cons obtain parts where parts: "pointer_parts ts = Inr parts" "[] \<notin> set parts"
      "\<forall>q \<in> set parts. CHR ''/'' \<notin> set q" "map unescape_token parts = map token_text ts"
    by auto
  have "pointer_parts (t # ts) = Inr (seg # parts)"
    using seg(1) parts(1) by simp
  moreover have "[] \<notin> set (seg # parts)"
    using seg(2) parts(2) by auto
  moreover have "\<forall>q \<in> set (seg # parts). CHR ''/'' \<notin> set q"
    using seg(3) parts(3) by simp
  moreover have "map unescape_token (seg # parts) = map token_text (t # ts)"
    using seg(4) parts(4) by simp
  ultimately show ?case by blast
qed

lemma filter_nonempty: "[] \<notin> set parts \<Longrightarrow> filter (\<lambda>p. p \<noteq> []) parts = parts"
  by (induction parts) auto

lemma parse_pointer_join:
  assumes "[] \<notin> set parts" "\<forall>q \<in> set parts. CHR ''/'' \<notin> set q"
  shows "parse_pointer (''/'' @ join ''/'' parts) = Inr (map unescape_token parts)"
proof (cases "parts = []")
  case True
  then show ?thesis by (simp add: parse_pointer_def)
next
  case False
  with assms have "join ''/'' parts \<noteq> []"
    by (simp add: join_nonempty)
  moreover from False assms have "split CHR ''/'' (join ''/'' parts) = parts"
    by (simp add: split_join)
  ultimately show ?thesis
    using assms(1) by (simp add: parse_pointer_def filter_nonempty)
qed

lemma node_at_tokens:
  "node_at t p n \<Longrightarrow> str_keyed t \<Longrightarrow> list_all good_token p"
proof (induction rule: node_at.induct)
  case (at_root t)
  then show ?case by simp
next
  case (at_elem i xs p n)
  from at_elem.hyps(1) at_elem.prems have "str_keyed (xs ! i)"
    by (simp add: list_all_length)
  with at_elem.IH show ?case by simp
next
  case (at_item k v kvs p n)
  from at_item.hyps(1) at_item.prems have "is_nonempty_str k" "str_keyed v"
    by (auto simp: list_all_iff)
  with at_item.IH show ?case
    by (cases k) simp_all
qed

lemma resolve_node_at:
  "node_at t p n \<Longrightarrow> str_keyed t \<Longrightarrow> resolve_loop T t d (map token_text p) = Inr n"
proof (induction arbitrary: d rule: node_at.induct)
  case (at_root t)
  then show ?case by simp
next
  case (at_elem i xs p n)
  from at_elem.hyps(1) at_elem.prems have "str_keyed (xs ! i)" and "i < 2 ^ 63"
    by (simp_all add: list_all_length)
  with at_elem.IH have "resolve_loop T (xs ! i) (Suc d) (map token_text p) = Inr n"
    and "py_int (str_int (int i)) = Some (int i)"
    by (simp_all add: py_int_index)
  with at_elem.hyps(1) show ?case
    by simp
next
  case (at_item k v kvs p n)
  from at_item.hyps(1) at_item.prems have k: "is_nonempty_str k" and v: "str_keyed v"
      and d: "distinct (map fst kvs)"
    by (auto simp: list_all_iff)
  from k obtain s where s: "k = PStr s" by (cases k) simp_all
  from d at_item.hyps(1) have "map_of kvs k = Some v"
    by (rule map_of_is_SomeI)
  moreover from at_item.IH v have "resolve_loop T v (Suc d) (map token_text p) = Inr n"
    by simp
  ultimately show ?case
    by (simp add: s)
qed

text \<open>
  C2, as the specification states it, fails: in \<open>{"": 1}\<close> the node \<open>1\<close> is at the path
  with the single key \<open>""\<close>, which is rendered as the pointer \<open>/\<close>; that pointer decodes to
  no token at all and resolves to the whole document.
\<close>

theorem empty_key_breaks_roundtrip:
  "node_at (PDict [(PStr [], Scalar (PInt 1))]) [PStr []] (Scalar (PInt 1))
   \<and> to_path_pointer [PStr []] = Inr ''/''
   \<and> parse_pointer ''/'' = Inr []
   \<and> resolve (PDict [(PStr [], Scalar (PInt 1))]) [] = Inr (PDict [(PStr [], Scalar (PInt 1))])
   \<and> PDict [(PStr [], Scalar (PInt 1))] \<noteq> Scalar (PInt 1)"
proof -
  have "node_at (PDict [(PStr [], Scalar (PInt 1))]) [PStr []] (Scalar (PInt 1))"
    by (rule at_item [where v = "Scalar (PInt 1)"]) (simp, rule at_root)
  moreover have "to_path_pointer [PStr []] = Inr ''/''"
    by (simp add: to_path_pointer_def json_pointer_escape_concat)
  ultimately show ?thesis
    by (simp add: parse_pointer_def resolve_def)
qed

text \<open>
  C2, amended. In a document all of whose mapping keys are non-empty strings, for every
  node and its path: the path is rendered as a pointer, the pointer decodes to tokens, and
  the tokens resolve to exactly that node; so does the pointer given to \<open>yaml-show\<close>.
\<close>

theorem search_path_roundtrip:
  assumes "str_keyed t" "node_at t p n"
  shows "\<exists>ptr toks. to_path_pointer p = Inr ptr \<and> parse_pointer ptr = Inr toks
           \<and> resolve t toks = Inr n \<and> show_main ptr t = Inr n"
proof -
  from assms have "list_all good_token p"
    by (simp add: node_at_tokens)
  then obtain parts where parts: "pointer_parts p = Inr parts" "[] \<notin> set parts"
      "\<forall>q \<in> set parts. CHR ''/'' \<notin> set q" "map unescape_token parts = map token_text p"
      "parts = [] \<longleftrightarrow> p = []"
    using pointer_parts_good [of p] by auto
  let ?ptr = "''/'' @ join ''/'' parts"
  have a: "to_path_pointer p = Inr ?ptr"
    by (simp add: to_path_pointer_def parts(1))
  have b: "parse_pointer ?ptr = Inr (map token_text p)"
    using parse_pointer_join [OF parts(2) parts(3)] parts(4) by simp
  have c: "resolve t (map token_text p) = Inr n"
    using assms by (simp add: resolve_def resolve_node_at)
  have d: "show_main ?ptr t = Inr n"
  proof (cases "parts = []")
    case True
    with parts(5) c show ?thesis
      by (simp add: show_main_def rstrip_def parse_pointer_def)
  next
    case False
    with parts(2) have "join ''/'' parts \<noteq> []" "last (join ''/'' parts) = last (last parts)"
      by (simp_all add: join_nonempty last_join)
    moreover from False parts(2,3) have "last (last parts) \<noteq> CHR ''/''"
      by (metis last_in_set)
    ultimately have "rstrip CHR ''/'' ?ptr = ?ptr"
      by (intro rstrip_unchanged) simp_all
    with b c show ?thesis
      by (simp add: show_main_def)
  qed
  from a b c d show ?thesis by blast
qed

theorem search_path_roundtrip_witness:
  "\<exists>ptr toks. to_path_pointer [PStr ''a/b'', PInt 1, PStr ''~''] = Inr ptr
     \<and> parse_pointer ptr = Inr toks
     \<and> resolve (PDict [(PStr ''x'', Scalar PNone),
                       (PStr ''a/b'', PList [Scalar (PInt 0), PDict [(PStr ''~'', Scalar (PStr ''v''))]])])
          toks = Inr (Scalar (PStr ''v''))
     \<and> show_main ptr (PDict [(PStr ''x'', Scalar PNone),
                       (PStr ''a/b'', PList [Scalar (PInt 0), PDict [(PStr ''~'', Scalar (PStr ''v''))]])])
          = Inr (Scalar (PStr ''v''))"
proof -
  let ?inner = "PDict [(PStr ''~'', Scalar (PStr ''v''))]"
  let ?lst = "PList [Scalar (PInt 0), ?inner]"
  let ?doc = "PDict [(PStr ''x'', Scalar PNone), (PStr ''a/b'', ?lst)]"
  have k: "str_keyed ?doc" by simp
  have "node_at ?inner [PStr ''~''] (Scalar (PStr ''v''))"
    by (rule at_item [where v = "Scalar (PStr ''v'')"]) (simp, rule at_root)
  then have "node_at ?lst [PInt (int 1), PStr ''~''] (Scalar (PStr ''v''))"
    by (intro at_elem) simp_all
  then have "node_at ?doc [PStr ''a/b'', PInt 1, PStr ''~''] (Scalar (PStr ''v''))"
    by (intro at_item [where v = ?lst]) simp_all
  with k show ?thesis
    by (rule search_path_roundtrip)
qed

section \<open>The highlighter\<close>


























section \<open>The search\<close>

text \<open>
  C1. The cap is not a hard one. With \<open>max_matches = 1\<close> and the pattern \<open>a\<close>, the
  document \<open>{"x": {"a": 1}, "a": 2, "aa": 3}\<close> has three matching keys; the search
  reaches the cap inside \<open>x\<close>, returns to the loop over the root, which goes on to the
  next item, and two lines are reported.
\<close>

theorem max_matches_overshoot:
  "search_report
     \<lparr>float_repr = (\<lambda>f. []), regexes = [literal_pattern ''a''], match_keys = True,
      match_values = True, path_fmt = ''pointer'', color = False, max_matches = 1\<rparr>
     (PDict [(PStr ''x'', PDict [(PStr ''a'', Scalar (PInt 1))]),
             (PStr ''a'', Scalar (PInt 2)), (PStr ''aa'', Scalar (PInt 3))])
   = Inr [''/x/a'' @ [CHR 0x09] @ ''(KEY)'' @ [CHR 0x09] @ ''a'',
          ''/a'' @ [CHR 0x09] @ ''(KEY)'' @ [CHR 0x09] @ ''a'']
   \<and> search_report
     \<lparr>float_repr = (\<lambda>f. []), regexes = [literal_pattern ''a''], match_keys = True,
      match_values = True, path_fmt = ''pointer'', color = False, max_matches = 0\<rparr>
     (PDict [(PStr ''x'', PDict [(PStr ''a'', Scalar (PInt 1))]),
             (PStr ''a'', Scalar (PInt 2)), (PStr ''aa'', Scalar (PInt 3))])
   = Inr [''/x/a'' @ [CHR 0x09] @ ''(KEY)'' @ [CHR 0x09] @ ''a'',
          ''/a'' @ [CHR 0x09] @ ''(KEY)'' @ [CHR 0x09] @ ''a'',
          ''/aa'' @ [CHR 0x09] @ ''(KEY)'' @ [CHR 0x09] @ ''aa'']"
  by code_simp

end
